theory Spec2Isabelle
  imports Main
begin

section \<open>The todo-list data layer (scripts/todo-list.js, class ToDoListData)\<close>

subsection \<open>Data model\<close>

text \<open>
  The values a field of a ToDo can hold. The typedef at the top of the source gives a ToDo
  the fields \<open>id\<close>, \<open>label\<close>, \<open>userId\<close> (strings) and \<open>isDone\<close> (a boolean); a caller can
  also pass \<open>undefined\<close> or \<open>null\<close> in a field.
\<close>

datatype jsval = JUndefined | JNull | JBool bool | JStr string

text \<open>
  A ToDo is a JavaScript object: a finite map from property names to values. The per-user
  collection stored under the flag \<open>todos\<close> maps todo ids to ToDos.
\<close>

type_synonym todo = "string \<rightharpoonup> jsval"

type_synonym collection = "string \<rightharpoonup> todo"

text \<open>
  A user document of the host, reduced to what this module reads and writes: its \<open>id\<close> and
  the value of its flag \<open>todo-list.todos\<close> (\<open>None\<close> when the flag was never set, which
  \<open>getFlag\<close> reports as \<open>undefined\<close>). \<open>game.users\<close> is a collection of user documents
  that is enumerated in a fixed order.
\<close>

record user =
  user_id :: string
  flag_todos :: "collection option"

type_synonym game = "user list"

text \<open>The object handed to \<open>setFlag\<close>: property names with a ToDo or \<open>null\<close> (\<open>None\<close>).\<close>

type_synonym payload = "(string \<times> todo option) list"

text \<open>
  Reading a property of \<open>undefined\<close> throws a TypeError. Every write operation returns
  either \<open>undefined\<close> (the optional chain found no user) or the promise of \<open>setFlag\<close>; the
  state paired with a promise is the state once the write is persisted.
\<close>

datatype error = TypeError

datatype ret = RetUndefined | RetPromise

subsection \<open>JavaScript primitives the source uses\<close>

text \<open>
  \<open>obj.name\<close> on a ToDo: the value of the property, \<open>undefined\<close> when it is absent. The
  source reads \<open>userId\<close> and \<open>id\<close> only, which no prototype provides.
\<close>

definition get_field :: "todo \<Rightarrow> string \<Rightarrow> jsval" where
  "get_field obj name = (case obj name of None \<Rightarrow> JUndefined | Some v \<Rightarrow> v)"

text \<open>A computed property name \<open>[v]\<close> is the string conversion of \<open>v\<close>.\<close>

fun property_key :: "jsval \<Rightarrow> string" where
  "property_key (JStr s) = s"
| "property_key JUndefined = ''undefined''"
| "property_key JNull = ''null''"
| "property_key (JBool True) = ''true''"
| "property_key (JBool False) = ''false''"

text \<open>
  \<open>obj[key].userId\<close> for an object literal \<open>obj\<close> of ToDos. An own property is a ToDo
  and gives its \<open>userId\<close>. Without an own property the read goes on to
  \<open>Object.prototype\<close>: under one of its names \<open>obj[key]\<close> is a built-in function (or, for
  \<open>__proto__\<close>, the prototype itself), none of which has a \<open>userId\<close>; under any other
  key \<open>obj[key]\<close> is \<open>undefined\<close>, and reading \<open>userId\<close> from it throws.
\<close>

definition object_prototype_names :: "string list" where
  "object_prototype_names =
     [''constructor'', ''hasOwnProperty'', ''isPrototypeOf'', ''propertyIsEnumerable'',
      ''toLocaleString'', ''toString'', ''valueOf'', ''__proto__'',
      ''__defineGetter__'', ''__defineSetter__'', ''__lookupGetter__'', ''__lookupSetter__'']"

definition member_userId :: "collection \<Rightarrow> string \<Rightarrow> error + jsval" where
  "member_userId obj key =
     (case obj key of
        Some relevantToDo \<Rightarrow> Inr (get_field relevantToDo ''userId'')
      | None \<Rightarrow> if key \<in> set object_prototype_names then Inr JUndefined else Inl TypeError)"

text \<open>Object spread \<open>...x\<close>: the properties of \<open>x\<close>, none when \<open>x\<close> is \<open>undefined\<close>.\<close>

definition spread :: "collection option \<Rightarrow> collection" where
  "spread x = (case x of None \<Rightarrow> Map.empty | Some obj \<Rightarrow> obj)"

subsection \<open>The host's services\<close>

text \<open>
  \<open>game.users\<close>, \<open>getFlag\<close> and \<open>setFlag\<close> belong to the host application; the repository
  calls them and does not contain them. They are modelled after the contract that
  section 4.1 of the spec gives for them.
\<close>

text \<open>
  Modelled from the spec: \<open>game.users.get(key)\<close>, the spec's \<open>getUserStore(userId)\<close>, which
  "may be absent (unknown/deleted user)": the user document with that id, \<open>undefined\<close>
  (\<open>None\<close>) when there is none. User ids are strings, so any other key finds nothing.
\<close>

fun users_get :: "game \<Rightarrow> jsval \<Rightarrow> user option" where
  "users_get g (JStr userId) = find (\<lambda>u. user_id u = userId) g"
| "users_get g _ = None"

text \<open>
  Modelled from the spec: \<open>user.getFlag('todo-list', 'todos')\<close>, the spec's
  \<open>KeyValueStore.get(namespace, key)\<close>, which returns the stored mapping or \<open>undefined\<close>.
\<close>

definition getFlag :: "user \<Rightarrow> collection option" where
  "getFlag u = flag_todos u"

text \<open>
  Modelled from the spec: the deletion sentinel of the store, "a key name prefixed with a
  deletion sentinel removes that sub-key instead of writing it". The prefix is the \<open>-=\<close>
  that \<open>deleteToDo\<close> puts before the id.
\<close>

definition is_deletion_key :: "string \<Rightarrow> bool" where
  "is_deletion_key k = (take 2 k = ''-='')"

text \<open>
  Modelled from the spec: what the store does with one entry of a written object, "setting
  a sub-key writes/overwrites only that sub-key", and a sentinel key removes the sub-key
  named after the sentinel. The source sends \<open>null\<close> under a sentinel key only; a \<open>null\<close>
  under any other key leaves that key without a record.
\<close>

fun merge_entry :: "collection \<Rightarrow> string \<times> todo option \<Rightarrow> collection" where
  "merge_entry c (k, v) = (if is_deletion_key k then c(drop 2 k := None) else c(k := v))"

text \<open>
  Modelled from the spec: \<open>user.setFlag('todo-list', 'todos', value)\<close>, the spec's
  \<open>KeyValueStore.set(namespace, key, value)\<close> with "shallow-merge-on-write semantics": the
  entries of \<open>value\<close> are merged, one by one, into the stored collection, and a flag that was
  never set is merged into as the empty object. The write is taken to succeed.
\<close>

definition setFlag :: "user \<Rightarrow> payload \<Rightarrow> user" where
  "setFlag u p = u\<lparr>flag_todos := Some (foldl merge_entry (spread (flag_todos u)) p)\<rparr>"

text \<open>
  \<open>setFlag\<close> changes the user document that \<open>game.users\<close> holds: in the state the changed
  document takes the place of the one with its id.
\<close>

definition put_user :: "game \<Rightarrow> user \<Rightarrow> game" where
  "put_user g u' = map (\<lambda>u. if user_id u = user_id u' then u' else u) g"

subsection \<open>ToDoListData\<close>

text \<open>
  \<^verbatim>\<open>static getToDosForUser(userId) {
      return game.users.get(userId)?.getFlag(ToDoList.ID, ToDoList.FLAGS.TODOS); }\<close>
\<close>

definition getToDosForUser :: "game \<Rightarrow> jsval \<Rightarrow> collection option" where
  "getToDosForUser g userId =
     (case users_get g userId of None \<Rightarrow> None | Some u \<Rightarrow> getFlag u)"

text \<open>
  \<^verbatim>\<open>static get allToDos() {
      const allToDos = game.users.reduce((accumulator, user) => {
          const userTodos = this.getToDosForUser(user.id);
          return { ...accumulator, ...userTodos } }, {});
      return allToDos; }\<close>
\<close>

definition allToDos :: "game \<Rightarrow> collection" where
  "allToDos g =
     foldl (\<lambda>accumulator u.
              accumulator ++ spread (getToDosForUser g (JStr (user_id u))))
       Map.empty g"

text \<open>
  \<^verbatim>\<open>static createToDo(userId, toDoData) {
      const newToDo = { isDone: false, ...toDoData, id: foundry.utils.randomID(16), userId }
      const newToDos = { [newToDo.id]: newToDo }
      return game.users.get(userId)?.setFlag(ToDoList.ID, ToDoList.FLAGS.TODOS, newToDos); }\<close>
  The first argument \<open>randomID\<close> is the string that \<open>foundry.utils.randomID(16)\<close> returns in
  this call.
\<close>

definition newToDo :: "string \<Rightarrow> jsval \<Rightarrow> todo \<Rightarrow> todo" where
  "newToDo randomID userId toDoData =
     ([''isDone'' \<mapsto> JBool False] ++ toDoData)(''id'' \<mapsto> JStr randomID, ''userId'' \<mapsto> userId)"

definition newToDos :: "string \<Rightarrow> jsval \<Rightarrow> todo \<Rightarrow> payload" where
  "newToDos randomID userId toDoData =
     (let r = newToDo randomID userId toDoData
      in [(property_key (get_field r ''id''), Some r)])"

definition createToDo :: "string \<Rightarrow> game \<Rightarrow> jsval \<Rightarrow> todo \<Rightarrow> (error + ret) \<times> game" where
  "createToDo randomID g userId toDoData =
     (case users_get g userId of
        None \<Rightarrow> (Inr RetUndefined, g)
      | Some u \<Rightarrow> (Inr RetPromise, put_user g (setFlag u (newToDos randomID userId toDoData))))"

text \<open>
  \<^verbatim>\<open>static updateToDo(toDoId, updateData) {
      const relevantToDo = this.allToDos[toDoId];
      const update = { [toDoId]: updateData }
      return game.users.get(relevantToDo.userId)?.setFlag(ToDoList.ID, ToDoList.FLAGS.TODOS, update); }\<close>
  When the id is not in the aggregation (and is no name of \<open>Object.prototype\<close>),
  \<open>relevantToDo\<close> is \<open>undefined\<close> and reading its \<open>userId\<close> throws before anything is
  written.
\<close>

definition updateToDo :: "game \<Rightarrow> string \<Rightarrow> todo \<Rightarrow> (error + ret) \<times> game" where
  "updateToDo g toDoId updateData =
     (case member_userId (allToDos g) toDoId of
        Inl e \<Rightarrow> (Inl e, g)
      | Inr owner \<Rightarrow>
          (case users_get g owner of
             None \<Rightarrow> (Inr RetUndefined, g)
           | Some u \<Rightarrow> (Inr RetPromise, put_user g (setFlag u [(toDoId, Some updateData)]))))"

text \<open>
  \<^verbatim>\<open>static deleteToDo(toDoId) {
      const relevantToDo = this.allToDos[toDoId];
      const keyDeletion = { [`-=${toDoId}`]: null }
      return game.users.get(relevantToDo.userId)?.setFlag(ToDoList.ID, ToDoList.FLAGS.TODOS, keyDeletion); }\<close>
\<close>

definition deleteToDo :: "game \<Rightarrow> string \<Rightarrow> (error + ret) \<times> game" where
  "deleteToDo g toDoId =
     (case member_userId (allToDos g) toDoId of
        Inl e \<Rightarrow> (Inl e, g)
      | Inr owner \<Rightarrow>
          (case users_get g owner of
             None \<Rightarrow> (Inr RetUndefined, g)
           | Some u \<Rightarrow> (Inr RetPromise, put_user g (setFlag u [(''-='' @ toDoId, None)]))))"

text \<open>A run of \<open>createToDo\<close> calls, each with the id drawn for it, its user and its data.\<close>

definition createToDos :: "game \<Rightarrow> (string \<times> jsval \<times> todo) list \<Rightarrow> game" where
  "createToDos g calls =
     foldl (\<lambda>g' (randomID, userId, toDoData). snd (createToDo randomID g' userId toDoData))
       g calls"

subsection \<open>The storage key and the id field\<close>

text \<open>Every record of every user's stored collection lies under the key its \<open>id\<close> field holds.\<close>

definition key_is_id :: "game \<Rightarrow> bool" where
  "key_is_id g =
     (\<forall>u\<in>set g. \<forall>k r. spread (flag_todos u) k = Some r \<longrightarrow> get_field r ''id'' = JStr k)"

subsection \<open>Example states\<close>

text \<open>Three ids as \<open>randomID(16)\<close> draws them.\<close>

abbreviation id_A :: string where "id_A \<equiv> ''a1B2c3D4e5F6g7H8''"

abbreviation id_B :: string where "id_B \<equiv> ''Zz9Yy8Xx7Ww6Vv5U''"

abbreviation id_C :: string where "id_C \<equiv> ''Qq4Rr3Ss2Tt1Uu0V''"

definition milk :: todo where
  "milk = [''isDone'' \<mapsto> JBool False, ''label'' \<mapsto> JStr ''buy milk'',
           ''id'' \<mapsto> JStr id_A, ''userId'' \<mapsto> JStr ''u1'']"

definition walk :: todo where
  "walk = [''isDone'' \<mapsto> JBool False, ''label'' \<mapsto> JStr ''walk the dog'',
           ''id'' \<mapsto> JStr id_B, ''userId'' \<mapsto> JStr ''u1'']"

definition tea :: todo where
  "tea = [''isDone'' \<mapsto> JBool True, ''label'' \<mapsto> JStr ''make tea'',
          ''id'' \<mapsto> JStr id_C, ''userId'' \<mapsto> JStr ''u2'']"

text \<open>The milk record with \<open>u2\<close> in its \<open>userId\<close> field.\<close>

definition milk_u2 :: todo where
  "milk_u2 = [''isDone'' \<mapsto> JBool False, ''label'' \<mapsto> JStr ''buy milk'',
              ''id'' \<mapsto> JStr id_A, ''userId'' \<mapsto> JStr ''u2'']"

text \<open>Two users, neither with a stored collection (the start of the scenario of spec 8.6).\<close>

definition game0 :: game where
  "game0 = [\<lparr>user_id = ''u1'', flag_todos = None\<rparr>, \<lparr>user_id = ''u2'', flag_todos = None\<rparr>]"

text \<open>After \<open>createToDo("u1", {label: "buy milk"})\<close> has drawn the id \<open>id_A\<close>.\<close>

definition game1 :: game where
  "game1 = [\<lparr>user_id = ''u1'', flag_todos = Some [id_A \<mapsto> milk]\<rparr>,
            \<lparr>user_id = ''u2'', flag_todos = None\<rparr>]"

text \<open>
  After \<open>updateToDo(id_A, {label: "x"})\<close> on \<open>game1\<close> (the call of spec 8.3): the record
  is the update data alone and has no \<open>userId\<close>.
\<close>

definition game_partial :: game where
  "game_partial =
     [\<lparr>user_id = ''u1'', flag_todos = Some [id_A \<mapsto> [''label'' \<mapsto> JStr ''x'']]\<rparr>,
      \<lparr>user_id = ''u2'', flag_todos = None\<rparr>]"

text \<open>
  After \<open>updateToDo(id_A, milk_u2)\<close> on \<open>game1\<close>: the record lies in the collection of
  \<open>u1\<close> and names \<open>u2\<close>.
\<close>

definition game_foreign :: game where
  "game_foreign =
     [\<lparr>user_id = ''u1'', flag_todos = Some [id_A \<mapsto> milk_u2]\<rparr>,
      \<lparr>user_id = ''u2'', flag_todos = None\<rparr>]"

text \<open>Three users with todos of their own.\<close>

definition game2 :: game where
  "game2 =
     [\<lparr>user_id = ''u1'', flag_todos = Some [id_A \<mapsto> milk, id_B \<mapsto> walk]\<rparr>,
      \<lparr>user_id = ''u2'', flag_todos = Some [id_C \<mapsto> tea]\<rparr>,
      \<lparr>user_id = ''u3'', flag_todos = None\<rparr>]"

text \<open>Two users that hold the same key.\<close>

definition game_shared :: game where
  "game_shared =
     [\<lparr>user_id = ''u1'', flag_todos = Some [id_A \<mapsto> milk, id_B \<mapsto> walk]\<rparr>,
      \<lparr>user_id = ''u2'', flag_todos = Some [id_A \<mapsto> milk_u2]\<rparr>,
      \<lparr>user_id = ''u3'', flag_todos = None\<rparr>]"

text \<open>
  Two calls of \<open>createToDo\<close> for \<open>u1\<close>; the second passes \<open>isDone\<close>, \<open>id\<close> and \<open>userId\<close> of
  its own.
\<close>

definition walk_request :: todo where
  "walk_request = [''label'' \<mapsto> JStr ''walk the dog'', ''isDone'' \<mapsto> JBool True,
                   ''id'' \<mapsto> JStr ''mine'', ''userId'' \<mapsto> JStr ''u2'']"

definition two_calls :: "(string \<times> jsval \<times> todo) list" where
  "two_calls =
     [(id_A, JStr ''u1'', [''label'' \<mapsto> JStr ''buy milk'']),
      (id_B, JStr ''u1'', walk_request)]"

section \<open>Properties\<close>

subsection \<open>The host's collection of users\<close>

lemma users_get_SomeD:
  "users_get g x = Some u \<Longrightarrow> x = JStr (user_id u) \<and> u \<in> set g"
  by (cases x) (auto simp: find_Some_iff)

lemma users_get_NoneI:
  "\<forall>u\<in>set g. x \<noteq> JStr (user_id u) \<Longrightarrow> users_get g x = None"
  by (cases x) (auto simp: find_None_iff)

lemma users_get_distinct:
  "distinct (map user_id g) \<Longrightarrow> u \<in> set g \<Longrightarrow> users_get g (JStr (user_id u)) = Some u"
  by (induction g) auto

lemma user_id_setFlag: "user_id (setFlag u p) = user_id u"
  by (simp add: setFlag_def)

lemma find_put_user:
  "find (\<lambda>u. user_id u = n) (put_user g u') =
     (if n = user_id u' \<and> find (\<lambda>u. user_id u = n) g \<noteq> None then Some u'
      else find (\<lambda>u. user_id u = n) g)"
  by (induction g) (auto simp: put_user_def)

lemma users_get_put_user:
  "users_get (put_user g u') x =
     (if x = JStr (user_id u') \<and> users_get g x \<noteq> None then Some u' else users_get g x)"
  by (cases x) (auto simp: find_put_user)

lemma map_user_id_put_user: "map user_id (put_user g u') = map user_id g"
  by (induction g) (auto simp: put_user_def)

text \<open>What every user's collection is once \<open>setFlag\<close> has written to the user named \<open>n\<close>.\<close>

lemma getToDosForUser_write:
  assumes "users_get g (JStr n) = Some u"
  shows "getToDosForUser (put_user g (setFlag u p)) x =
     (if x = JStr n then Some (foldl merge_entry (spread (getFlag u)) p)
      else getToDosForUser g x)"
  using assms users_get_SomeD[OF assms]
  by (auto simp: getToDosForUser_def users_get_put_user user_id_setFlag getFlag_def setFlag_def)

subsection \<open>Merging the users' collections\<close>

lemma merge_lookup:
  "foldl (++) a cs k = (case filter (\<lambda>c. k \<in> dom c) cs of [] \<Rightarrow> a k | xs \<Rightarrow> last xs k)"
proof (induction cs rule: rev_induct)
  case Nil
  then show ?case by simp
next
  case (snoc c cs)
  then show ?case
    by (auto simp: map_add_def domIff split: option.splits list.splits)
qed

lemma merge_pointwise:
  "foldl (++) a cs k =
     foldl (\<lambda>acc v. case v of None \<Rightarrow> acc | Some x \<Rightarrow> Some x) (a k) (map (\<lambda>c. c k) cs)"
  by (induction cs arbitrary: a) (simp_all add: map_add_def)

lemma dom_merge: "dom (foldl (++) a cs) = dom a \<union> (\<Union>c\<in>set cs. dom c)"
  by (induction cs arbitrary: a) auto

lemma allToDos_foldl:
  "allToDos g = foldl (++) Map.empty (map (\<lambda>u. spread (getToDosForUser g (JStr (user_id u)))) g)"
  by (simp add: allToDos_def foldl_map)

lemma allToDos_names:
  "allToDos g =
     foldl (++) Map.empty (map (\<lambda>n. spread (getToDosForUser g (JStr n))) (map user_id g))"
  by (simp add: allToDos_foldl comp_def)

lemma filter_spread:
  "filter (\<lambda>c. k \<in> dom c) (map (\<lambda>u. spread (f u)) g)
     = filter (\<lambda>c. k \<in> dom c) (List.map_filter f g)"
  by (induction g) (auto simp: map_filter_simps spread_def split: option.splits)

text \<open>The aggregation at a key depends only on what each user holds at that key.\<close>

lemma allToDos_cong:
  assumes "map user_id g' = map user_id g"
    and "\<forall>n\<in>set (map user_id g).
           spread (getToDosForUser g' (JStr n)) k = spread (getToDosForUser g (JStr n)) k"
  shows "allToDos g' k = allToDos g k"
proof -
  have "map (\<lambda>c. c k) (map (\<lambda>n. spread (getToDosForUser g' (JStr n))) (map user_id g))
      = map (\<lambda>c. c k) (map (\<lambda>n. spread (getToDosForUser g (JStr n))) (map user_id g))"
    using assms(2) by simp
  then show ?thesis
    unfolding allToDos_names assms(1) merge_pointwise by (simp only:)
qed

lemma allToDos_NoneI:
  assumes "\<forall>u\<in>set g. spread (getToDosForUser g (JStr (user_id u))) k = None"
  shows "allToDos g k = None"
proof -
  have "k \<notin> dom (allToDos g)"
    using assms by (auto simp: allToDos_foldl dom_merge)
  then show ?thesis by blast
qed

subsection \<open>What \<open>createToDo\<close> writes\<close>

lemma newToDo_id: "get_field (newToDo randomID userId toDoData) ''id'' = JStr randomID"
  by (simp add: newToDo_def get_field_def)

lemma newToDos_eq:
  "newToDos randomID userId toDoData = [(randomID, Some (newToDo randomID userId toDoData))]"
  by (simp add: newToDos_def newToDo_def get_field_def)

lemma createToDo_lookup:
  assumes "\<not> is_deletion_key randomID"
  shows "spread (getToDosForUser (snd (createToDo randomID g userId toDoData)) x) k =
     (if x = userId \<and> users_get g userId \<noteq> None \<and> k = randomID
      then Some (newToDo randomID userId toDoData)
      else spread (getToDosForUser g x) k)"
proof (cases "users_get g userId")
  case None
  then show ?thesis by (simp add: createToDo_def)
next
  case (Some u)
  then obtain n where n: "userId = JStr n" by (cases userId) auto
  with Some have "users_get g (JStr n) = Some u" by simp
  from getToDosForUser_write [OF this] Some n assms show ?thesis
    by (auto simp: createToDo_def newToDos_eq spread_def getToDosForUser_def)
qed

lemma createToDo_known:
  "users_get (snd (createToDo randomID g userId toDoData)) x = None \<longleftrightarrow> users_get g x = None"
  by (auto simp: createToDo_def users_get_put_user split: option.splits)

lemma createToDos_snoc:
  "createToDos g (calls @ [(i, u, d)]) = snd (createToDo i (createToDos g calls) u d)"
  by (simp add: createToDos_def)

lemma createToDos_known:
  "users_get (createToDos g calls) x = None \<longleftrightarrow> users_get g x = None"
  by (induction calls rule: rev_induct)
     (auto simp: createToDos_snoc createToDo_known createToDos_def)

lemma createToDos_lookup:
  assumes "distinct (map fst calls)"
    and "\<forall>c\<in>set calls. \<not> is_deletion_key (fst c)"
    and "(randomID, userId, toDoData) \<in> set calls"
    and "users_get g userId \<noteq> None"
  shows "spread (getToDosForUser (createToDos g calls) userId) randomID
           = Some (newToDo randomID userId toDoData)"
  using assms
proof (induction calls rule: rev_induct)
  case Nil
  then show ?case by simp
next
  case (snoc c calls)
  obtain i u d where c: "c = (i, u, d)" by (cases c)
  from snoc.prems c have nd: "\<not> is_deletion_key i" by simp
  show ?case
  proof (cases "(randomID, userId, toDoData) = c")
    case True
    with c snoc.prems(4) nd show ?thesis
      by (simp add: createToDos_snoc createToDo_lookup createToDos_known)
  next
    case False
    with snoc.prems have mem: "(randomID, userId, toDoData) \<in> set calls" by auto
    with snoc.prems(1) c have "randomID \<noteq> i" by force
    moreover from snoc.IH mem snoc.prems
    have "spread (getToDosForUser (createToDos g calls) userId) randomID
            = Some (newToDo randomID userId toDoData)" by simp
    ultimately show ?thesis using c nd
      by (simp add: createToDos_snoc createToDo_lookup)
  qed
qed

lemma merge_entry_key_is_id:
  assumes "\<forall>k r. c k = Some r \<longrightarrow> get_field r ''id'' = JStr k"
    and "get_field r ''id'' = JStr i"
  shows "\<forall>k r'. merge_entry c (i, Some r) k = Some r' \<longrightarrow> get_field r' ''id'' = JStr k"
  using assms by (auto split: if_splits)

subsection \<open>The scenario of spec 8.6 and 8.3 on the model\<close>

lemma scenario_create:
  "createToDo id_A game0 (JStr ''u1'') [''label'' \<mapsto> JStr ''buy milk''] = (Inr RetPromise, game1)"
  by (simp add: createToDo_def game0_def game1_def newToDos_def newToDo_def get_field_def
      put_user_def setFlag_def spread_def is_deletion_key_def milk_def)

lemma scenario_partial_update:
  "updateToDo game1 id_A [''label'' \<mapsto> JStr ''x''] = (Inr RetPromise, game_partial)"
  by (simp add: updateToDo_def member_userId_def allToDos_def getToDosForUser_def getFlag_def
      game1_def game_partial_def get_field_def put_user_def setFlag_def spread_def
      is_deletion_key_def milk_def)

lemma scenario_foreign_update:
  "updateToDo game1 id_A milk_u2 = (Inr RetPromise, game_foreign)"
  by (simp add: updateToDo_def member_userId_def allToDos_def getToDosForUser_def getFlag_def
      game1_def game_foreign_def get_field_def put_user_def setFlag_def spread_def
      is_deletion_key_def milk_def)

subsection \<open>An id that is not in the aggregation\<close>

text \<open>
  Claim C1. For an id that no user's collection contains, \<open>updateToDo\<close> and \<open>deleteToDo\<close>
  should neither throw nor change a collection. The source reads \<open>relevantToDo.userId\<close>
  with \<open>relevantToDo\<close> undefined: on the two users without todos the calls
  \<open>updateToDo("nonexistent", {label: "x"})\<close> and \<open>deleteToDo("nonexistent")\<close> end with a
  TypeError (the state is left as it was).
\<close>

theorem unknown_id_throws:
  "updateToDo game0 ''nonexistent'' [''label'' \<mapsto> JStr ''x''] = (Inl TypeError, game0)
   \<and> deleteToDo game0 ''nonexistent'' = (Inl TypeError, game0)"
  by (simp add: updateToDo_def deleteToDo_def member_userId_def object_prototype_names_def
      allToDos_def getToDosForUser_def getFlag_def spread_def game0_def)

text \<open>
  Claim C10. When \<open>updateToDo\<close> or \<open>deleteToDo\<close> is called with an id absent from the
  aggregation view, no write is issued before the call finishes, normally or abnormally:
  the state after the call, and so every user's collection, is the state before it. The
  call throws the TypeError, except for an id that is a name of \<open>Object.prototype\<close>, where
  it returns \<open>undefined\<close>.
\<close>

theorem absent_id_no_write:
  assumes "allToDos g toDoId = None"
  shows "snd (updateToDo g toDoId updateData) = g
       \<and> snd (deleteToDo g toDoId) = g
       \<and> getToDosForUser (snd (updateToDo g toDoId updateData)) userId = getToDosForUser g userId
       \<and> getToDosForUser (snd (deleteToDo g toDoId)) userId = getToDosForUser g userId
       \<and> fst (updateToDo g toDoId updateData)
           = (if toDoId \<in> set object_prototype_names then Inr RetUndefined else Inl TypeError)
       \<and> fst (deleteToDo g toDoId)
           = (if toDoId \<in> set object_prototype_names then Inr RetUndefined else Inl TypeError)"
  using assms by (simp add: updateToDo_def deleteToDo_def member_userId_def)

theorem absent_id_no_write_witness:
  "allToDos game1 ''nonexistent'' = None
   \<and> updateToDo game1 ''nonexistent'' [''label'' \<mapsto> JStr ''x''] = (Inl TypeError, game1)
   \<and> deleteToDo game1 ''nonexistent'' = (Inl TypeError, game1)
   \<and> allToDos game1 ''toString'' = None
   \<and> updateToDo game1 ''toString'' [''label'' \<mapsto> JStr ''x''] = (Inr RetUndefined, game1)
   \<and> deleteToDo game1 ''toString'' = (Inr RetUndefined, game1)"
proof -
  have absent: "allToDos game1 ''nonexistent'' = None" "allToDos game1 ''toString'' = None"
    by (simp_all add: allToDos_def getToDosForUser_def getFlag_def spread_def game1_def)
  have names: "''nonexistent'' \<notin> set object_prototype_names"
    "''toString'' \<in> set object_prototype_names"
    by (simp_all add: object_prototype_names_def)
  note plain = absent_id_no_write [OF absent(1), of "[''label'' \<mapsto> JStr ''x'']"]
  note inherited = absent_id_no_write [OF absent(2), of "[''label'' \<mapsto> JStr ''x'']"]
  from plain inherited names absent show ?thesis
    by (simp add: prod_eq_iff)
qed

subsection \<open>Unknown users\<close>

text \<open>
  Claim C6. For every \<open>userId\<close> that names no known user and every \<open>toDoData\<close>,
  \<open>createToDo\<close> raises nothing and returns \<open>undefined\<close>, and the state (every user's
  collection) is unchanged.
\<close>

theorem createToDo_unknown_user:
  assumes "\<forall>u\<in>set g. userId \<noteq> JStr (user_id u)"
  shows "createToDo randomID g userId toDoData = (Inr RetUndefined, g)"
  using users_get_NoneI [OF assms] by (simp add: createToDo_def)

theorem createToDo_unknown_user_witness:
  "JStr ''u3'' \<notin> set (map (\<lambda>u. JStr (user_id u)) game0) \<and>
   createToDo ''k3Xw9QpL0aZr8TbV'' game0 (JStr ''u3'') [''label'' \<mapsto> JStr ''buy milk'']
     = (Inr RetUndefined, game0)"
proof -
  have unknown: "\<forall>u\<in>set game0. JStr ''u3'' \<noteq> JStr (user_id u)"
    by (simp add: game0_def)
  have "JStr ''u3'' \<notin> set (map (\<lambda>u. JStr (user_id u)) game0)"
    by (simp add: game0_def)
  then show ?thesis
    using createToDo_unknown_user [OF unknown] by simp
qed

text \<open>
  Claim C7. For every \<open>userId\<close>, \<open>getToDosForUser\<close> returns what the user's store holds
  under the todos key: \<open>undefined\<close> when no user has that id, and for a known user the
  stored flag as it is, which is \<open>undefined\<close> when nothing was stored and is never
  replaced by an empty mapping. The function is a read of the state: it has no error
  result and returns no state.
\<close>

theorem getToDosForUser_store:
  "((\<forall>u\<in>set g. userId \<noteq> JStr (user_id u)) \<longrightarrow> getToDosForUser g userId = None)
   \<and> (distinct (map user_id g) \<and> u \<in> set g \<longrightarrow>
        getToDosForUser g (JStr (user_id u)) = flag_todos u)"
proof (intro conjI impI)
  assume "\<forall>u\<in>set g. userId \<noteq> JStr (user_id u)"
  then have "users_get g userId = None" by (rule users_get_NoneI)
  then show "getToDosForUser g userId = None" by (simp add: getToDosForUser_def)
next
  assume "distinct (map user_id g) \<and> u \<in> set g"
  then have "users_get g (JStr (user_id u)) = Some u" by (blast intro: users_get_distinct)
  then show "getToDosForUser g (JStr (user_id u)) = flag_todos u"
    by (simp add: getToDosForUser_def getFlag_def)
qed

theorem getToDosForUser_store_witness:
  "getToDosForUser game1 (JStr ''u3'') = None
   \<and> getToDosForUser game1 (JStr ''u2'') = None
   \<and> getToDosForUser game1 (JStr ''u1'') = Some [id_A \<mapsto> milk]"
  using getToDosForUser_store [of game1 "JStr ''u3''" "\<lparr>user_id = ''u2'', flag_todos = None\<rparr>"]
    getToDosForUser_store [of game1 "JStr ''u3''"
      "\<lparr>user_id = ''u1'', flag_todos = Some [id_A \<mapsto> milk]\<rparr>"]
  by (simp add: game1_def)

subsection \<open>The aggregation\<close>

text \<open>
  Claim C4. \<open>allToDos\<close> is the merge, over the users in enumeration order, of what
  \<open>getToDosForUser\<close> returns for each: a user without a stored collection contributes
  nothing, a key is in the result exactly when some user's collection has it, and its
  entry is that of the last user in the enumeration whose collection has the key. The
  getter is a read of the state: it returns no state.
\<close>

theorem allToDos_merge:
  "allToDos g k =
     (case filter (\<lambda>c. k \<in> dom c)
             (List.map_filter (\<lambda>u. getToDosForUser g (JStr (user_id u))) g) of
        [] \<Rightarrow> None | cs \<Rightarrow> last cs k)
   \<and> dom (allToDos g) = (\<Union>u\<in>set g. dom (spread (getToDosForUser g (JStr (user_id u)))))"
  by (simp add: allToDos_foldl merge_lookup filter_spread dom_merge)

theorem allToDos_merge_witness:
  "allToDos game_shared id_A = Some milk_u2
   \<and> allToDos game_shared id_B = Some walk
   \<and> allToDos game_shared ''nonexistent'' = None"
  using allToDos_merge [of game_shared id_A] allToDos_merge [of game_shared id_B]
    allToDos_merge [of game_shared "''nonexistent''"]
  by (simp add: game_shared_def getToDosForUser_def getFlag_def map_filter_simps)

subsection \<open>The records \<open>createToDo\<close> stores\<close>

text \<open>
  Claim C2. After any run of \<open>createToDo\<close> calls whose generated ids do not repeat (and,
  as keys the store can hold, do not begin with the deletion sentinel), every call for a
  known user has left in that user's collection, under the generated id, the record
  \<open>{isDone: false, ...toDoData, id, userId}\<close>: its \<open>id\<close> is the generated id and its
  \<open>userId\<close> the calling user whatever \<open>toDoData\<close> holds there, its \<open>isDone\<close> is that of
  \<open>toDoData\<close> when it has one and \<open>false\<close> otherwise, and every other field is that of
  \<open>toDoData\<close>. The records of the calls have pairwise distinct \<open>id\<close> fields.
\<close>

theorem createToDo_records:
  assumes "distinct (map fst calls)"
    and "\<forall>c\<in>set calls. \<not> is_deletion_key (fst c)"
    and "(randomID, userId, toDoData) \<in> set calls"
    and "users_get g userId \<noteq> None"
  shows "spread (getToDosForUser (createToDos g calls) userId) randomID
           = Some (newToDo randomID userId toDoData)
       \<and> newToDo randomID userId toDoData ''id'' = Some (JStr randomID)
       \<and> newToDo randomID userId toDoData ''userId'' = Some userId
       \<and> newToDo randomID userId toDoData ''isDone''
           = (case toDoData ''isDone'' of None \<Rightarrow> Some (JBool False) | Some v \<Rightarrow> Some v)
       \<and> (\<forall>f. f \<notin> {''id'', ''userId'', ''isDone''} \<longrightarrow>
             newToDo randomID userId toDoData f = toDoData f)
       \<and> distinct (map (\<lambda>(i, u, d). get_field (newToDo i u d) ''id'') calls)"
proof -
  have stored: "spread (getToDosForUser (createToDos g calls) userId) randomID
                  = Some (newToDo randomID userId toDoData)"
    using assms by (rule createToDos_lookup)
  have fields: "newToDo randomID userId toDoData ''id'' = Some (JStr randomID)"
    "newToDo randomID userId toDoData ''userId'' = Some userId"
    "newToDo randomID userId toDoData ''isDone''
       = (case toDoData ''isDone'' of None \<Rightarrow> Some (JBool False) | Some v \<Rightarrow> Some v)"
    "\<forall>f. f \<notin> {''id'', ''userId'', ''isDone''} \<longrightarrow> newToDo randomID userId toDoData f = toDoData f"
    by (auto simp: newToDo_def map_add_def split: option.splits)
  have "(\<lambda>(i, u, d). get_field (newToDo i u d) ''id'') = JStr \<circ> fst"
    by (auto simp: fun_eq_iff newToDo_id)
  moreover have "distinct (map (JStr \<circ> fst) calls)"
    using assms(1) by (simp add: distinct_map inj_on_def comp_def)
  ultimately have "distinct (map (\<lambda>(i, u, d). get_field (newToDo i u d) ''id'') calls)"
    by (simp only:)
  with stored fields show ?thesis by simp
qed

theorem createToDo_records_witness:
  "spread (getToDosForUser (createToDos game0 two_calls) (JStr ''u1'')) id_A = Some milk
   \<and> spread (getToDosForUser (createToDos game0 two_calls) (JStr ''u1'')) id_B
       = Some (newToDo id_B (JStr ''u1'') walk_request)
   \<and> newToDo id_B (JStr ''u1'') walk_request ''id'' = Some (JStr id_B)
   \<and> newToDo id_B (JStr ''u1'') walk_request ''userId'' = Some (JStr ''u1'')
   \<and> newToDo id_B (JStr ''u1'') walk_request ''isDone'' = Some (JBool True)
   \<and> newToDo id_B (JStr ''u1'') walk_request ''label'' = Some (JStr ''walk the dog'')"
proof -
  have gen: "distinct (map fst two_calls)" "\<forall>c\<in>set two_calls. \<not> is_deletion_key (fst c)"
    by (simp_all add: two_calls_def is_deletion_key_def)
  have known: "users_get game0 (JStr ''u1'') \<noteq> None"
    by (simp add: game0_def)
  have first: "(id_A, JStr ''u1'', [''label'' \<mapsto> JStr ''buy milk'']) \<in> set two_calls"
    and second: "(id_B, JStr ''u1'', walk_request) \<in> set two_calls"
    by (simp_all add: two_calls_def)
  have milk: "newToDo id_A (JStr ''u1'') [''label'' \<mapsto> JStr ''buy milk''] = milk"
    by (simp add: newToDo_def milk_def)
  show ?thesis
    using createToDo_records [OF gen first known] createToDo_records [OF gen second known]
    by (simp add: milk walk_request_def)
qed

text \<open>
  Claim C8. For a known user \<open>createToDo\<close> writes the single entry whose key is the
  generated id and whose record carries that id in its \<open>id\<close> field; so the write keeps
  every record of every collection under the key that its \<open>id\<close> field holds.
\<close>

theorem createToDo_key_is_id:
  "(users_get g userId = Some u \<longrightarrow>
      createToDo randomID g userId toDoData
        = (Inr RetPromise,
           put_user g (setFlag u [(randomID, Some (newToDo randomID userId toDoData))]))
      \<and> get_field (newToDo randomID userId toDoData) ''id'' = JStr randomID)
   \<and> (key_is_id g \<longrightarrow> key_is_id (snd (createToDo randomID g userId toDoData)))"
proof (intro conjI impI)
  assume "users_get g userId = Some u"
  then show "createToDo randomID g userId toDoData
        = (Inr RetPromise,
           put_user g (setFlag u [(randomID, Some (newToDo randomID userId toDoData))]))"
    by (simp add: createToDo_def newToDos_eq)
next
  show "get_field (newToDo randomID userId toDoData) ''id'' = JStr randomID"
    by (rule newToDo_id)
next
  assume inv: "key_is_id g"
  show "key_is_id (snd (createToDo randomID g userId toDoData))"
  proof (cases "users_get g userId")
    case None
    with inv show ?thesis by (simp add: createToDo_def)
  next
    case (Some v)
    then have "v \<in> set g" using users_get_SomeD by blast
    with inv have old: "\<forall>k r. spread (flag_todos v) k = Some r \<longrightarrow> get_field r ''id'' = JStr k"
      by (auto simp: key_is_id_def)
    have new: "\<forall>k r'. spread (flag_todos (setFlag v (newToDos randomID userId toDoData))) k = Some r'
                 \<longrightarrow> get_field r' ''id'' = JStr k"
      using merge_entry_key_is_id [OF old newToDo_id, of randomID userId toDoData]
      by (simp add: setFlag_def newToDos_eq spread_def)
    with inv Some show ?thesis
      by (auto simp: createToDo_def key_is_id_def put_user_def)
  qed
qed

theorem createToDo_key_is_id_witness:
  "key_is_id game1
   \<and> createToDo id_B game1 (JStr ''u1'') walk_request
       = (Inr RetPromise,
          put_user game1
            (setFlag \<lparr>user_id = ''u1'', flag_todos = Some [id_A \<mapsto> milk]\<rparr>
               [(id_B, Some (newToDo id_B (JStr ''u1'') walk_request))]))
   \<and> get_field (newToDo id_B (JStr ''u1'') walk_request) ''id'' = JStr id_B
   \<and> key_is_id (snd (createToDo id_B game1 (JStr ''u1'') walk_request))"
proof -
  have inv: "key_is_id game1"
    by (auto simp: key_is_id_def game1_def spread_def milk_def get_field_def split: if_splits)
  have known: "users_get game1 (JStr ''u1'')
                 = Some \<lparr>user_id = ''u1'', flag_todos = Some [id_A \<mapsto> milk]\<rparr>"
    by (simp add: game1_def)
  note step = createToDo_key_is_id [of game1 "JStr ''u1''"
      "\<lparr>user_id = ''u1'', flag_todos = Some [id_A \<mapsto> milk]\<rparr>" id_B walk_request]
  from step known inv show ?thesis by blast
qed

subsection \<open>The store that \<open>updateToDo\<close> and \<open>deleteToDo\<close> write to\<close>

lemma allToDos_game_foreign: "allToDos game_foreign id_A = Some milk_u2"
  by (simp add: allToDos_def getToDosForUser_def getFlag_def spread_def game_foreign_def)

lemma allToDos_game_partial: "allToDos game_partial id_A = Some [''label'' \<mapsto> JStr ''x'']"
  by (simp add: allToDos_def getToDosForUser_def getFlag_def spread_def game_partial_def)

lemma allToDos_game2_A: "allToDos game2 id_A = Some milk"
  by (simp add: allToDos_def getToDosForUser_def getFlag_def spread_def game2_def)

lemma allToDos_game2_C: "allToDos game2 id_C = Some tea"
  by (simp add: allToDos_def getToDosForUser_def getFlag_def spread_def game2_def)

lemma users_get_game2_u1:
  "users_get game2 (JStr ''u1'')
     = Some \<lparr>user_id = ''u1'', flag_todos = Some [id_A \<mapsto> milk, id_B \<mapsto> walk]\<rparr>"
  by (simp add: game2_def)

lemma milk_userId: "get_field milk ''userId'' = JStr ''u1''"
  by (simp add: milk_def get_field_def)

text \<open>
  Claim C9. For every id in the aggregation, \<open>updateToDo\<close> and \<open>deleteToDo\<close> take the
  store from the \<open>userId\<close> field of the record found there: when that field names a known
  user the write goes to that user and the collection of every other user (the one the
  record was found in among them) is as before; when it names no known user the call
  returns \<open>undefined\<close> and the state is unchanged.
\<close>

theorem write_goes_to_userId_field:
  assumes "allToDos g toDoId = Some relevantToDo"
  shows "(users_get g (get_field relevantToDo ''userId'') = None \<longrightarrow>
            updateToDo g toDoId updateData = (Inr RetUndefined, g)
          \<and> deleteToDo g toDoId = (Inr RetUndefined, g))
       \<and> (users_get g (get_field relevantToDo ''userId'') = Some u \<longrightarrow>
            updateToDo g toDoId updateData
              = (Inr RetPromise, put_user g (setFlag u [(toDoId, Some updateData)]))
          \<and> deleteToDo g toDoId
              = (Inr RetPromise, put_user g (setFlag u [(''-='' @ toDoId, None)]))
          \<and> (\<forall>x. x \<noteq> JStr (user_id u) \<longrightarrow>
                getToDosForUser (snd (updateToDo g toDoId updateData)) x = getToDosForUser g x
              \<and> getToDosForUser (snd (deleteToDo g toDoId)) x = getToDosForUser g x))"
proof (intro conjI impI allI)
  assume "users_get g (get_field relevantToDo ''userId'') = None"
  with assms show "updateToDo g toDoId updateData = (Inr RetUndefined, g)"
    and "deleteToDo g toDoId = (Inr RetUndefined, g)"
    by (simp_all add: updateToDo_def deleteToDo_def member_userId_def)
next
  assume known: "users_get g (get_field relevantToDo ''userId'') = Some u"
  with assms show upd: "updateToDo g toDoId updateData
      = (Inr RetPromise, put_user g (setFlag u [(toDoId, Some updateData)]))"
    and del: "deleteToDo g toDoId
      = (Inr RetPromise, put_user g (setFlag u [(''-='' @ toDoId, None)]))"
    by (simp_all add: updateToDo_def deleteToDo_def member_userId_def)
  from known have "users_get g (JStr (user_id u)) = Some u"
    using users_get_SomeD by fastforce
  note w = getToDosForUser_write [OF this]
  fix x assume "x \<noteq> JStr (user_id u)"
  then show "getToDosForUser (snd (updateToDo g toDoId updateData)) x = getToDosForUser g x"
    and "getToDosForUser (snd (deleteToDo g toDoId)) x = getToDosForUser g x"
    by (simp_all add: upd del w)
qed

theorem write_goes_to_userId_field_witness:
  "allToDos game_foreign id_A = Some milk_u2
   \<and> updateToDo game_foreign id_A walk
       = (Inr RetPromise,
          put_user game_foreign
            (setFlag \<lparr>user_id = ''u2'', flag_todos = None\<rparr> [(id_A, Some walk)]))
   \<and> deleteToDo game_foreign id_A
       = (Inr RetPromise,
          put_user game_foreign
            (setFlag \<lparr>user_id = ''u2'', flag_todos = None\<rparr> [(''-='' @ id_A, None)]))
   \<and> getToDosForUser (snd (updateToDo game_foreign id_A walk)) (JStr ''u1'')
       = getToDosForUser game_foreign (JStr ''u1'')
   \<and> getToDosForUser (snd (deleteToDo game_foreign id_A)) (JStr ''u1'')
       = getToDosForUser game_foreign (JStr ''u1'')
   \<and> allToDos game_partial id_A = Some [''label'' \<mapsto> JStr ''x'']
   \<and> updateToDo game_partial id_A walk = (Inr RetUndefined, game_partial)
   \<and> deleteToDo game_partial id_A = (Inr RetUndefined, game_partial)"
proof -
  have named: "users_get game_foreign (get_field milk_u2 ''userId'')
                 = Some \<lparr>user_id = ''u2'', flag_todos = None\<rparr>"
    by (simp add: game_foreign_def milk_u2_def get_field_def)
  have unnamed: "users_get game_partial (get_field [''label'' \<mapsto> JStr ''x''] ''userId'') = None"
    by (simp add: get_field_def)
  have other: "JStr ''u1'' \<noteq> JStr (user_id \<lparr>user_id = ''u2'', flag_todos = None\<rparr>)"
    by simp
  note foreign = write_goes_to_userId_field [OF allToDos_game_foreign,
      where u = "\<lparr>user_id = ''u2'', flag_todos = None\<rparr>" and updateData = walk]
  note partial = write_goes_to_userId_field [OF allToDos_game_partial,
      where u = "\<lparr>user_id = ''u2'', flag_todos = None\<rparr>" and updateData = walk]
  from foreign named other partial unnamed allToDos_game_foreign allToDos_game_partial
  show ?thesis by blast
qed

subsection \<open>\<open>updateToDo\<close> on an id of the aggregation\<close>

text \<open>
  Claim C3 as stated, for every id of the aggregation, fails where the record's \<open>userId\<close>
  names no known user. After \<open>updateToDo(id_A, {label: "x"})\<close> the record under \<open>id_A\<close> is
  \<open>{label: "x"}\<close>; a second \<open>updateToDo(id_A, milk)\<close> finds no user for it, returns
  \<open>undefined\<close> and writes nothing, and the stored record is still \<open>{label: "x"}\<close>.
\<close>

theorem updateToDo_no_owner_counterexample:
  "allToDos game_partial id_A = Some [''label'' \<mapsto> JStr ''x'']
   \<and> updateToDo game_partial id_A milk = (Inr RetUndefined, game_partial)
   \<and> spread (getToDosForUser (snd (updateToDo game_partial id_A milk)) (JStr ''u1'')) id_A
       = Some [''label'' \<mapsto> JStr ''x'']
   \<and> [''label'' \<mapsto> JStr ''x''] \<noteq> milk"
proof -
  have upd: "updateToDo game_partial id_A milk = (Inr RetUndefined, game_partial)"
    by (simp add: updateToDo_def member_userId_def allToDos_game_partial get_field_def)
  have kept: "spread (getToDosForUser game_partial (JStr ''u1'')) id_A = Some [''label'' \<mapsto> JStr ''x'']"
    by (simp add: getToDosForUser_def getFlag_def spread_def game_partial_def)
  have "[''label'' \<mapsto> JStr ''x''] ''id'' \<noteq> milk ''id''"
    by (simp add: milk_def)
  then have "[''label'' \<mapsto> JStr ''x''] \<noteq> milk" by metis
  with upd kept allToDos_game_partial show ?thesis by simp
qed

text \<open>
  Claim C3, amended. For every id of the aggregation whose record names a known user in
  its \<open>userId\<close> field (the id, as a key the store can hold, not beginning with the deletion
  sentinel), \<open>updateToDo\<close> writes the single entry \<open>{toDoId: updateData}\<close> to that user's
  store: afterwards that user's collection holds \<open>updateData\<close> itself under the id, with
  nothing of the prior record merged in, every other key of that collection is as before,
  and so is the collection of every other user.
\<close>

theorem updateToDo_replaces_record:
  assumes "allToDos g toDoId = Some relevantToDo"
    and "get_field relevantToDo ''userId'' = JStr n"
    and "users_get g (JStr n) = Some u"
    and "\<not> is_deletion_key toDoId"
  shows "updateToDo g toDoId updateData
           = (Inr RetPromise, put_user g (setFlag u [(toDoId, Some updateData)]))
       \<and> spread (getToDosForUser (snd (updateToDo g toDoId updateData)) (JStr n)) toDoId
           = Some updateData
       \<and> (\<forall>k. k \<noteq> toDoId \<longrightarrow>
             spread (getToDosForUser (snd (updateToDo g toDoId updateData)) (JStr n)) k
               = spread (getToDosForUser g (JStr n)) k)
       \<and> (\<forall>x. x \<noteq> JStr n \<longrightarrow>
             getToDosForUser (snd (updateToDo g toDoId updateData)) x = getToDosForUser g x)"
proof -
  have upd: "updateToDo g toDoId updateData
           = (Inr RetPromise, put_user g (setFlag u [(toDoId, Some updateData)]))"
    using assms(1-3) by (simp add: updateToDo_def member_userId_def)
  note w = getToDosForUser_write [OF assms(3)]
  have own: "getToDosForUser g (JStr n) = getFlag u"
    using assms(3) by (simp add: getToDosForUser_def)
  show ?thesis
    using assms(4) by (simp add: upd w own spread_def)
qed

theorem updateToDo_replaces_record_witness:
  "spread (getToDosForUser (snd (updateToDo game2 id_A [''label'' \<mapsto> JStr ''x''])) (JStr ''u1'')) id_A
     = Some [''label'' \<mapsto> JStr ''x'']
   \<and> spread (getToDosForUser (snd (updateToDo game2 id_A [''label'' \<mapsto> JStr ''x''])) (JStr ''u1'')) id_B
     = Some walk
   \<and> getToDosForUser (snd (updateToDo game2 id_A [''label'' \<mapsto> JStr ''x''])) (JStr ''u2'')
     = Some [id_C \<mapsto> tea]"
proof -
  have plain: "\<not> is_deletion_key id_A"
    by (simp add: is_deletion_key_def)
  note upd = updateToDo_replaces_record
    [OF allToDos_game2_A milk_userId users_get_game2_u1 plain, of "[''label'' \<mapsto> JStr ''x'']"]
  have before: "spread (getToDosForUser game2 (JStr ''u1'')) id_B = Some walk"
    "getToDosForUser game2 (JStr ''u2'') = Some [id_C \<mapsto> tea]"
    by (simp_all add: getToDosForUser_def getFlag_def spread_def game2_def)
  have other: "id_B \<noteq> id_A" "JStr ''u2'' \<noteq> JStr ''u1''"
    by simp_all
  from upd other before show ?thesis by metis
qed

subsection \<open>\<open>deleteToDo\<close> on an id of the aggregation\<close>

text \<open>
  Claim C5 as stated, for every id of the aggregation, fails in two ways. Where the record
  names no known user (\<open>game_partial\<close>) \<open>deleteToDo\<close> returns \<open>undefined\<close>, writes nothing
  and the id stays. Where the record lies in the collection of \<open>u1\<close> and names \<open>u2\<close>
  (\<open>game_foreign\<close>) the deletion is written to the store of \<open>u2\<close>, and the id stays in the
  collection of \<open>u1\<close> and in the aggregation.
\<close>

theorem deleteToDo_no_owner_counterexample:
  "allToDos game_partial id_A = Some [''label'' \<mapsto> JStr ''x'']
   \<and> deleteToDo game_partial id_A = (Inr RetUndefined, game_partial)
   \<and> allToDos (snd (deleteToDo game_partial id_A)) id_A = Some [''label'' \<mapsto> JStr ''x'']
   \<and> allToDos game_foreign id_A = Some milk_u2
   \<and> fst (deleteToDo game_foreign id_A) = Inr RetPromise
   \<and> getToDosForUser (snd (deleteToDo game_foreign id_A)) (JStr ''u1'') = Some [id_A \<mapsto> milk_u2]
   \<and> allToDos (snd (deleteToDo game_foreign id_A)) id_A = Some milk_u2"
proof -
  have partial: "deleteToDo game_partial id_A = (Inr RetUndefined, game_partial)"
    by (simp add: deleteToDo_def member_userId_def allToDos_game_partial get_field_def)
  have foreign: "deleteToDo game_foreign id_A
      = (Inr RetPromise,
         [\<lparr>user_id = ''u1'', flag_todos = Some [id_A \<mapsto> milk_u2]\<rparr>,
          \<lparr>user_id = ''u2'', flag_todos = Some (Map.empty(id_A := None))\<rparr>])"
    by (simp add: deleteToDo_def member_userId_def allToDos_def getToDosForUser_def getFlag_def
        milk_u2_def get_field_def game_foreign_def put_user_def setFlag_def spread_def
        is_deletion_key_def)
  have after: "allToDos [\<lparr>user_id = ''u1'', flag_todos = Some [id_A \<mapsto> milk_u2]\<rparr>,
          \<lparr>user_id = ''u2'', flag_todos = Some (Map.empty(id_A := None))\<rparr>] id_A = Some milk_u2"
    by (simp add: allToDos_def getToDosForUser_def getFlag_def spread_def)
  show ?thesis
    using allToDos_game_partial allToDos_game_foreign after
    by (simp add: partial foreign getToDosForUser_def getFlag_def)
qed

text \<open>
  Claim C5, amended. For every id of the aggregation whose record names a known user in
  its \<open>userId\<close> field, \<open>deleteToDo\<close> writes only the entry \<open>{"-=" + toDoId: null}\<close> to that
  user's store: afterwards that user's collection has lost exactly that id, every other
  key of it is as before, so is the collection of every other user, and so is every other
  id of the aggregation; the id is gone from the aggregation too when no other user's
  collection holds it.
\<close>

theorem deleteToDo_removes_one:
  assumes "allToDos g toDoId = Some relevantToDo"
    and "get_field relevantToDo ''userId'' = JStr n"
    and "users_get g (JStr n) = Some u"
  shows "deleteToDo g toDoId
           = (Inr RetPromise, put_user g (setFlag u [(''-='' @ toDoId, None)]))
       \<and> spread (getToDosForUser (snd (deleteToDo g toDoId)) (JStr n)) toDoId = None
       \<and> (\<forall>k. k \<noteq> toDoId \<longrightarrow>
             spread (getToDosForUser (snd (deleteToDo g toDoId)) (JStr n)) k
               = spread (getToDosForUser g (JStr n)) k)
       \<and> (\<forall>x. x \<noteq> JStr n \<longrightarrow>
             getToDosForUser (snd (deleteToDo g toDoId)) x = getToDosForUser g x)
       \<and> (\<forall>k. k \<noteq> toDoId \<longrightarrow> allToDos (snd (deleteToDo g toDoId)) k = allToDos g k)
       \<and> ((\<forall>v\<in>set g. user_id v \<noteq> n \<longrightarrow>
              spread (getToDosForUser g (JStr (user_id v))) toDoId = None) \<longrightarrow>
            allToDos (snd (deleteToDo g toDoId)) toDoId = None)"
proof -
  let ?g' = "put_user g (setFlag u [(''-='' @ toDoId, None)])"
  have del: "deleteToDo g toDoId = (Inr RetPromise, ?g')"
    using assms by (simp add: deleteToDo_def member_userId_def)
  note w = getToDosForUser_write [OF assms(3)]
  have own: "getToDosForUser g (JStr n) = getFlag u"
    using assms(3) by (simp add: getToDosForUser_def)
  have sentinel: "is_deletion_key (''-='' @ toDoId)" "drop 2 (''-='' @ toDoId) = toDoId"
    by (simp_all add: is_deletion_key_def)
  have owner: "spread (getToDosForUser ?g' (JStr n)) k
           = (if k = toDoId then None else spread (getToDosForUser g (JStr n)) k)" for k
    using sentinel by (simp add: w own spread_def)
  have others: "\<forall>x. x \<noteq> JStr n \<longrightarrow> getToDosForUser ?g' x = getToDosForUser g x"
    by (simp add: w)
  have names: "map user_id ?g' = map user_id g"
    by (rule map_user_id_put_user)
  have frame: "allToDos ?g' k = allToDos g k" if "k \<noteq> toDoId" for k
  proof (rule allToDos_cong [OF names], rule ballI)
    fix m assume "m \<in> set (map user_id g)"
    show "spread (getToDosForUser ?g' (JStr m)) k = spread (getToDosForUser g (JStr m)) k"
      using that owner [of k] others by (cases "m = n") auto
  qed
  have gone: "allToDos ?g' toDoId = None"
    if "\<forall>v\<in>set g. user_id v \<noteq> n \<longrightarrow> spread (getToDosForUser g (JStr (user_id v))) toDoId = None"
  proof (rule allToDos_NoneI, rule ballI)
    fix v assume "v \<in> set ?g'"
    then have "user_id v \<in> set (map user_id ?g')" by simp
    then have "user_id v \<in> set (map user_id g)" by (simp only: names)
    then obtain v' where v': "v' \<in> set g" "user_id v' = user_id v" by auto
    show "spread (getToDosForUser ?g' (JStr (user_id v))) toDoId = None"
    proof (cases "user_id v = n")
      case True
      then show ?thesis using owner [of toDoId] by simp
    next
      case False
      with that v' have "spread (getToDosForUser g (JStr (user_id v))) toDoId = None" by metis
      with False others show ?thesis by simp
    qed
  qed
  show ?thesis
    using owner others frame gone by (simp add: del)
qed

theorem deleteToDo_removes_one_witness:
  "deleteToDo game2 id_A
     = (Inr RetPromise,
        put_user game2
          (setFlag \<lparr>user_id = ''u1'', flag_todos = Some [id_A \<mapsto> milk, id_B \<mapsto> walk]\<rparr>
             [(''-='' @ id_A, None)]))
   \<and> spread (getToDosForUser (snd (deleteToDo game2 id_A)) (JStr ''u1'')) id_A = None
   \<and> spread (getToDosForUser (snd (deleteToDo game2 id_A)) (JStr ''u1'')) id_B = Some walk
   \<and> getToDosForUser (snd (deleteToDo game2 id_A)) (JStr ''u2'') = Some [id_C \<mapsto> tea]
   \<and> allToDos (snd (deleteToDo game2 id_A)) id_C = Some tea
   \<and> allToDos (snd (deleteToDo game2 id_A)) id_A = None"
proof -
  note del = deleteToDo_removes_one [OF allToDos_game2_A milk_userId users_get_game2_u1]
  have before: "spread (getToDosForUser game2 (JStr ''u1'')) id_B = Some walk"
    "getToDosForUser game2 (JStr ''u2'') = Some [id_C \<mapsto> tea]"
    by (simp_all add: getToDosForUser_def getFlag_def spread_def game2_def)
  have other: "id_B \<noteq> id_A" "id_C \<noteq> id_A" "JStr ''u2'' \<noteq> JStr ''u1''"
    by simp_all
  have sole: "\<forall>v\<in>set game2. user_id v \<noteq> ''u1'' \<longrightarrow>
                spread (getToDosForUser game2 (JStr (user_id v))) id_A = None"
    by (simp add: getToDosForUser_def getFlag_def spread_def game2_def)
  from del other before sole allToDos_game2_C show ?thesis by metis
qed

end
